theory Spec2Isabelle
  imports Main "HOL-Library.Sublist" "HOL-Library.AList" "HOL-Library.Multiset"
begin

section \<open>JavaScript strings\<close>

text \<open>
  A string is a list of characters; a \<^typ>\<open>char\<close> stands for one UTF-16 code unit below
  \<open>0x100\<close> (Latin-1), which covers every literal of \<^verbatim>\<open>crawler.ts\<close>; page text with
  other characters is outside the model. The white space of \<^verbatim>\<open>String.prototype.trim\<close> and
  of the regular expression class \<^verbatim>\<open>\s\<close> is the same set; in this range it is TAB, LF, VT,
  FF, CR, SPACE and NBSP. \<^verbatim>\<open>toLowerCase\<close> maps A to Z and the capital letters from
  \<open>0xC0\<close> to \<open>0xDE\<close> (the multiplication sign apart) to their small letters.
\<close>

definition is_white_space :: "char \<Rightarrow> bool" where
  "is_white_space c =
     (c \<in> set [CHR 0x09, CHR 0x0A, CHR 0x0B, CHR 0x0C, CHR 0x0D, CHR 0x20, CHR 0xA0])"

definition upper_chars :: string where
  "upper_chars = ''ABCDEFGHIJKLMNOPQRSTUVWXYZ'' @
     [CHR 0xC0, CHR 0xC1, CHR 0xC2, CHR 0xC3, CHR 0xC4, CHR 0xC5, CHR 0xC6, CHR 0xC7,
      CHR 0xC8, CHR 0xC9, CHR 0xCA, CHR 0xCB, CHR 0xCC, CHR 0xCD, CHR 0xCE, CHR 0xCF,
      CHR 0xD0, CHR 0xD1, CHR 0xD2, CHR 0xD3, CHR 0xD4, CHR 0xD5, CHR 0xD6,
      CHR 0xD8, CHR 0xD9, CHR 0xDA, CHR 0xDB, CHR 0xDC, CHR 0xDD, CHR 0xDE]"

definition lower_chars :: string where
  "lower_chars = ''abcdefghijklmnopqrstuvwxyz'' @
     [CHR 0xE0, CHR 0xE1, CHR 0xE2, CHR 0xE3, CHR 0xE4, CHR 0xE5, CHR 0xE6, CHR 0xE7,
      CHR 0xE8, CHR 0xE9, CHR 0xEA, CHR 0xEB, CHR 0xEC, CHR 0xED, CHR 0xEE, CHR 0xEF,
      CHR 0xF0, CHR 0xF1, CHR 0xF2, CHR 0xF3, CHR 0xF4, CHR 0xF5, CHR 0xF6,
      CHR 0xF8, CHR 0xF9, CHR 0xFA, CHR 0xFB, CHR 0xFC, CHR 0xFD, CHR 0xFE]"

definition toLowerCase_char :: "char \<Rightarrow> char" where
  "toLowerCase_char c =
     (case map_of (zip upper_chars lower_chars) c of Some l \<Rightarrow> l | None \<Rightarrow> c)"

definition toLowerCase :: "string \<Rightarrow> string" where
  "toLowerCase s = map toLowerCase_char s"

text \<open>\<^verbatim>\<open>s.trim()\<close>: white space is removed at both ends.\<close>

definition trim :: "string \<Rightarrow> string" where
  "trim s = rev (dropWhile is_white_space (rev (dropWhile is_white_space s)))"

text \<open>
  \<^verbatim>\<open>s.replace(/\s+/g, ' ')\<close>: every maximal run of white space becomes one space. The flag
  says whether the character just read belonged to a run that is already replaced.
\<close>

fun collapse_from :: "bool \<Rightarrow> string \<Rightarrow> string" where
  "collapse_from in_run [] = []"
| "collapse_from in_run (c # cs) =
     (if is_white_space c
      then (if in_run then collapse_from True cs else CHR '' '' # collapse_from True cs)
      else c # collapse_from False cs)"

definition collapse_spaces :: "string \<Rightarrow> string" where
  "collapse_spaces s = collapse_from False s"

text \<open>\<^verbatim>\<open>text.trim().replace(/\s+/g, ' ')\<close>, as applied to label and value cells.\<close>

definition normalize_text :: "string \<Rightarrow> string" where
  "normalize_text s = collapse_spaces (trim s)"

text \<open>\<^verbatim>\<open>s.includes(t)\<close>: \<open>t\<close> occurs in \<open>s\<close> as a contiguous run; the empty string always does.\<close>

fun str_includes :: "string \<Rightarrow> string \<Rightarrow> bool" where
  "str_includes [] t = (t = [])"
| "str_includes (c # cs) t = (prefix t (c # cs) \<or> str_includes cs t)"

section \<open>Errors\<close>

text \<open>
  What a handler can throw: crawlee's \<^verbatim>\<open>NonRetryableError\<close> with its message, the timeout
  of a Playwright wait, and the \<^verbatim>\<open>TypeError\<close> of calling a method a handle does not have.
\<close>

datatype error = NonRetryableError string | TimeoutError | TypeError

section \<open>Outcome of a search (\<^verbatim>\<open>performSearch\<close>, after submission)\<close>

text \<open>
  \<^verbatim>\<open>page.$eval(Selectors.ErrorMessage, el => el?.textContent?.toLowerCase().trim())
       .catch(() => null)\<close>:
  the argument is the text of the first \<^verbatim>\<open>.tabs-info-message\<close> element, \<open>None\<close> when the page
  has no such element (then \<^verbatim>\<open>$eval\<close> rejects and the \<^verbatim>\<open>catch\<close> yields \<^verbatim>\<open>null\<close>).
\<close>

definition errorText :: "string option \<Rightarrow> string option" where
  "errorText message = map_option (\<lambda>t. trim (toLowerCase t)) message"

text \<open>
  The two \<^verbatim>\<open>if (errorText?.includes(...)) throw new NonRetryableError(...)\<close> statements, in
  the order of the source; falling through both is the normal return.
\<close>

definition checkOutcome :: "string option \<Rightarrow> error + unit" where
  "checkOutcome message =
     (case errorText message of
        None \<Rightarrow> Inr ()
      | Some t \<Rightarrow>
          if str_includes t ''no results found''
          then Inl (NonRetryableError ''No results found for the given criteria'')
          else if str_includes t ''too many results found''
          then Inl (NonRetryableError
                 ''Too many results found. Please narrow your search criteria'')
          else Inr ())"

section \<open>Command line (\<^verbatim>\<open>validateArgs\<close>)\<close>

text \<open>
  \<^verbatim>\<open>process.exit(code)\<close> after \<^verbatim>\<open>console.error(message)\<close>: the function does not return, and
  the model returns the exit code with the message on the left.
\<close>

datatype exit = Exit nat string

text \<open>
  \<^verbatim>\<open>parse(dateStr, 'yyyy-MM-dd', new Date())\<close> belongs to the library date-fns, which is not
  part of the repository: it is a parameter \<open>parse\<close>, giving the time value of the parsed
  date, or \<open>None\<close> for an Invalid Date (whose \<^verbatim>\<open>getTime()\<close> is \<^verbatim>\<open>NaN\<close>).
\<close>

definition isValidDate :: "(string \<Rightarrow> int option) \<Rightarrow> string \<Rightarrow> bool" where
  "isValidDate parse dateStr = (parse dateStr \<noteq> None)"

text \<open>\<^verbatim>\<open>!x\<close> for an argument that may be missing: \<^verbatim>\<open>undefined\<close> and the empty string.\<close>

definition falsy :: "string option \<Rightarrow> bool" where
  "falsy x = (x = None \<or> x = Some [])"

definition usage_message :: string where
  "usage_message = ''Usage: npm start <start_date:YYYY-MM-DD> <end_date:YYYY-MM-DD>''"

text \<open>
  \<open>args\<close> is \<^verbatim>\<open>process.argv.slice(2)\<close>; the destructuring \<^verbatim>\<open>[startDate, endDate] = args\<close>
  reads its first two elements, \<^verbatim>\<open>undefined\<close> where there is none. A comparison with an
  Invalid Date is false in JavaScript, hence the last case.
\<close>

definition validateArgs :: "(string \<Rightarrow> int option) \<Rightarrow> string list \<Rightarrow> exit + (string \<times> string)" where
  "validateArgs parse args =
     (let startDate = (case args of [] \<Rightarrow> None | s # _ \<Rightarrow> Some s);
          endDate = (case args of _ # e # _ \<Rightarrow> Some e | _ \<Rightarrow> None)
      in if falsy startDate \<or> falsy endDate then Inl (Exit 1 usage_message)
         else case (startDate, endDate) of
           (Some s, Some e) \<Rightarrow>
             if \<not> isValidDate parse s \<or> \<not> isValidDate parse e
             then Inl (Exit 1 ''Invalid date format. Use YYYY-MM-DD.'')
             else (case (parse s, parse e) of
                     (Some parsedStart, Some parsedEnd) \<Rightarrow>
                       if parsedStart > parsedEnd
                       then Inl (Exit 1 ''Start date must be before or equal to end date.'')
                       else Inr (s, e)
                   | _ \<Rightarrow> Inr (s, e))
         | _ \<Rightarrow> Inl (Exit 1 usage_message))"

section \<open>The search form\<close>

definition FormContainer :: string where "FormContainer = ''.search-attr-container''"
definition DateFrom :: string where "DateFrom = ''#attribute_date_from''"
definition DateTo :: string where "DateTo = ''#attribute_date_to''"
definition SubmitButton :: string where "SubmitButton = ''.ui-button-secondary .ui-clickable''"

definition TARGET_CHECKBOXES :: "string list" where
  "TARGET_CHECKBOXES =
     [''pwp_criteria_0'',
      ''collections_criteria_advanced_7'',
      ''collections_criteria_advanced_7_child_attrs_0'']"

text \<open>
  One \<^verbatim>\<open>input[type="checkbox"]\<close> of the page: its \<^verbatim>\<open>id\<close> attribute (\<open>None\<close> when it has
  none), whether it is checked, and whether
  \<^verbatim>\<open>el.closest(".ui-chkbox")?.querySelector(".ui-chkbox-box")\<close> finds an element.
\<close>

record checkbox =
  cb_id :: "string option"
  isChecked :: bool
  has_box :: bool

text \<open>
  The page as \<^verbatim>\<open>performSearch\<close> acts on it: the checkboxes in document order, the number of
  clicks made on widget boxes, the text of each input (by selector), the input that has the
  focus, whether its whole text is selected, and the form values of every activation of the
  submit control, as (from field, to field).
\<close>

record page =
  checkboxes :: "checkbox list"
  box_clicks :: nat
  inputs :: "string \<Rightarrow> string"
  focused :: "string option"
  all_selected :: bool
  submissions :: "(string \<times> string) list"

definition shouldBeChecked :: "string \<Rightarrow> bool" where
  "shouldBeChecked ident = (ident \<in> set TARGET_CHECKBOXES)"

text \<open>
  \<^verbatim>\<open>needs_click\<close> joins the two tests of the loop body: the checkbox has a non-empty id
  (\<^verbatim>\<open>if (!id) continue\<close>) and \<^verbatim>\<open>isChecked !== shouldBeChecked\<close>.

  The body of the \<^verbatim>\<open>for (const checkbox of checkboxes)\<close> loop, over the remaining handles.
  The result is the checkboxes after the loop, the number of \<^verbatim>\<open>box.click()\<close> calls made, and
  the error that ended the loop, if any. A click on a widget box flips the checked state of
  its own checkbox and of no other. \<^verbatim>\<open>evaluateHandle\<close> always returns a handle object, so
  \<^verbatim>\<open>if (box)\<close> holds also when the page function found no element; the handle then has no
  \<^verbatim>\<open>click\<close> method and the call throws a \<^verbatim>\<open>TypeError\<close>.
\<close>

definition needs_click :: "checkbox \<Rightarrow> bool" where
  "needs_click cb =
     (case cb_id cb of
        None \<Rightarrow> False
      | Some ident \<Rightarrow> ident \<noteq> [] \<and> isChecked cb \<noteq> shouldBeChecked ident)"

fun setCheckboxes_loop :: "checkbox list \<Rightarrow> checkbox list \<times> nat \<times> error option" where
  "setCheckboxes_loop [] = ([], 0, None)"
| "setCheckboxes_loop (cb # cbs) =
     (if needs_click cb then
        (if has_box cb then
           (case setCheckboxes_loop cbs of
              (cbs', n, e) \<Rightarrow> (cb\<lparr>isChecked := \<not> isChecked cb\<rparr> # cbs', Suc n, e))
         else (cb # cbs, 0, Some TypeError))
      else
        (case setCheckboxes_loop cbs of (cbs', n, e) \<Rightarrow> (cb # cbs', n, e)))"

definition setCheckboxes :: "page \<Rightarrow> page \<times> error option" where
  "setCheckboxes p =
     (case setCheckboxes_loop (checkboxes p) of
        (cbs', n, e) \<Rightarrow> (p\<lparr>checkboxes := cbs', box_clicks := box_clicks p + n\<rparr>, e))"

text \<open>
  Mouse and keyboard, for a plain text input: a click gives the focus, Control+A selects the
  whole text of the focused input, Backspace deletes the selection or else the last character,
  and a typed character replaces the selection or else is appended.
\<close>

definition click_input :: "string \<Rightarrow> page \<Rightarrow> page" where
  "click_input selector p = p\<lparr>focused := Some selector, all_selected := False\<rparr>"

definition press_select_all :: "page \<Rightarrow> page" where
  "press_select_all p = p\<lparr>all_selected := (focused p \<noteq> None)\<rparr>"

definition press_backspace :: "page \<Rightarrow> page" where
  "press_backspace p =
     (case focused p of
        None \<Rightarrow> p
      | Some f \<Rightarrow>
          if all_selected p then p\<lparr>inputs := (inputs p)(f := []), all_selected := False\<rparr>
          else p\<lparr>inputs := (inputs p)(f := butlast (inputs p f))\<rparr>)"

definition press_char :: "page \<Rightarrow> char \<Rightarrow> page" where
  "press_char p c =
     (case focused p of
        None \<Rightarrow> p
      | Some f \<Rightarrow>
          if all_selected p then p\<lparr>inputs := (inputs p)(f := [c]), all_selected := False\<rparr>
          else p\<lparr>inputs := (inputs p)(f := inputs p f @ [c])\<rparr>)"

text \<open>\<^verbatim>\<open>page.type(selector, value, { delay: 100 })\<close>: focus the element, then one key per character.\<close>

definition type_text :: "string \<Rightarrow> string \<Rightarrow> page \<Rightarrow> page" where
  "type_text selector v p = foldl press_char (p\<lparr>focused := Some selector\<rparr>) v"

definition fillDateField :: "page \<Rightarrow> string \<Rightarrow> string \<Rightarrow> page" where
  "fillDateField p selector v =
     type_text selector v (press_backspace (press_select_all (click_input selector p)))"

text \<open>\<^verbatim>\<open>page.click(Selectors.SubmitButton)\<close>: the form is sent with the dates it holds.\<close>

definition click_submit :: "page \<Rightarrow> page" where
  "click_submit p = p\<lparr>submissions := submissions p @ [(inputs p DateFrom, inputs p DateTo)]\<rparr>"

text \<open>
  What the site does during one call of \<^verbatim>\<open>performSearch\<close>: whether each wait is answered
  before its timeout, whether the submit control can be clicked, and the text of the
  informational message on the page that follows (\<open>None\<close>: no such element).
\<close>

record attempt =
  network_idle :: bool
  form_appears :: bool
  submit_clickable :: bool
  navigation_completes :: bool
  outcome_appears :: bool
  info_message :: "string option"

text \<open>
  \<^verbatim>\<open>performSearch(page, startDate, endDate)\<close>. The result is the page as the call left it and
  either the error thrown or the normal return. \<^verbatim>\<open>Promise.all\<close> starts the navigation wait
  and the click together, so a click that succeeds is made whether or not the navigation
  completes in time.
\<close>

definition performSearch :: "attempt \<Rightarrow> page \<Rightarrow> string \<Rightarrow> string \<Rightarrow> page \<times> (error + unit)" where
  "performSearch a p startDate endDate =
     (if \<not> network_idle a then (p, Inl TimeoutError)
      else if \<not> form_appears a then (p, Inl TimeoutError)
      else case setCheckboxes p of
        (p1, Some e) \<Rightarrow> (p1, Inl e)
      | (p1, None) \<Rightarrow>
          let p2 = fillDateField p1 DateFrom endDate;
              p3 = fillDateField p2 DateTo startDate
          in if \<not> submit_clickable a then (p3, Inl TimeoutError)
             else let p4 = click_submit p3
               in if \<not> navigation_completes a then (p4, Inl TimeoutError)
                  else if \<not> outcome_appears a then (p4, Inl TimeoutError)
                  else (p4, checkOutcome (info_message a)))"

section \<open>Detail pages (\<^verbatim>\<open>extractDetailData\<close>)\<close>

definition FIELD_MAPPINGS :: "(string \<times> string) list" where
  "FIELD_MAPPINGS =
     [(''Name/Title'', ''nameTitle''),
      (''Status'', ''status''),
      (''Application date'', ''applicationDate''),
      (''Revelation date'', ''revelationDate''),
      (''Application number'', ''applicationNumber''),
      (''Category of rights'', ''categoryOfRights''),
      (''Registration number'', ''registrationNumber''),
      (''Trademark type'', ''trademarkType'')]"

text \<open>
  A \<^verbatim>\<open>td\<close> of the details table: whether its class list contains \<^verbatim>\<open>detail-title\<close>, its
  \<^verbatim>\<open>textContent\<close>, and the \<^verbatim>\<open>textContent\<close> of its first \<^verbatim>\<open>.highlight\<close> descendant (\<open>None\<close>
  when \<^verbatim>\<open>querySelector\<close> finds none).
\<close>

record cell =
  detail_title :: bool
  textContent :: string
  highlight :: "string option"

text \<open>
  A record is a JavaScript object: its keys in insertion order, each with a string or
  \<^verbatim>\<open>null\<close> (\<open>None\<close>). \<^verbatim>\<open>result[k] = v\<close> is \<^const>\<open>AList.update\<close>: the value of an
  existing key is replaced in place, a new key is added at the end.
\<close>

type_synonym detail_record = "(string \<times> string option) list"

text \<open>
  \<^verbatim>\<open>Object.entries(fieldMappings).find(([label]) => labelText.includes(label))?.[1]\<close>
\<close>

definition fieldName :: "(string \<times> string) list \<Rightarrow> string \<Rightarrow> string option" where
  "fieldName fieldMappings labelText =
     map_option snd (find (\<lambda>entry. str_includes labelText (fst entry)) fieldMappings)"

text \<open>
  The value taken from a value cell: the trimmed text of the highlight if that is a
  non-empty string, else the normalized text of the whole cell; \<^verbatim>\<open>value || null\<close>.
\<close>

definition cell_value :: "cell \<Rightarrow> string option" where
  "cell_value valueCell =
     (let v = (case highlight valueCell of None \<Rightarrow> [] | Some h \<Rightarrow> trim h);
          v' = (if v = [] then normalize_text (textContent valueCell) else v)
      in if v' = [] then None else Some v')"

text \<open>The body of the \<^verbatim>\<open>for\<close> loop, for a label cell and the value cell that follows it.\<close>

definition extract_pair ::
  "(string \<times> string) list \<Rightarrow> detail_record \<Rightarrow> cell \<Rightarrow> cell \<Rightarrow> detail_record" where
  "extract_pair fieldMappings result labelCell valueCell =
     (if detail_title labelCell then
        (case fieldName fieldMappings (normalize_text (textContent labelCell)) of
           None \<Rightarrow> result
         | Some k \<Rightarrow> if k = [] then result else AList.update k (cell_value valueCell) result)
      else result)"

text \<open>
  \<^verbatim>\<open>for (let i = 0; i < cells.length; i += 2)\<close> with \<^verbatim>\<open>cells[i]\<close> and \<^verbatim>\<open>cells[i + 1]\<close>: a last
  cell without a partner has \<^verbatim>\<open>valueCell\<close> undefined and is passed over.
\<close>

fun extract_row :: "(string \<times> string) list \<Rightarrow> detail_record \<Rightarrow> cell list \<Rightarrow> detail_record" where
  "extract_row fieldMappings result (labelCell # valueCell # cells) =
     extract_row fieldMappings (extract_pair fieldMappings result labelCell valueCell) cells"
| "extract_row fieldMappings result [labelCell] = result"
| "extract_row fieldMappings result [] = result"

text \<open>\<^verbatim>\<open>rows.forEach(...)\<close> from the empty object; the rows are those of the details table.\<close>

definition extractDetailData_with :: "(string \<times> string) list \<Rightarrow> cell list list \<Rightarrow> detail_record" where
  "extractDetailData_with fieldMappings rows = foldl (extract_row fieldMappings) [] rows"

definition extractDetailData :: "cell list list \<Rightarrow> detail_record" where
  "extractDetailData rows = extractDetailData_with FIELD_MAPPINGS rows"

section \<open>The listing handler\<close>

text \<open>
  One view of the result list: the links that \<^verbatim>\<open>enqueueLinks\<close> finds with
  \<^verbatim>\<open>Selectors.TableRowLink\<close>, and whether \<^verbatim>\<open>page.$(Selectors.PaginationNext)\<close> finds an
  enabled control. The views of one handler call are numbered from 0: view \<open>i + 1\<close> is what
  the page shows after the click on the control of view \<open>i\<close> and the settle delay.
\<close>

record listing =
  rowLinks :: "string list"
  nextButton :: bool

text \<open>
  The \<^verbatim>\<open>do ... while (hasNextPage)\<close> loop, at view \<open>i\<close> with the links enqueued so far. It
  returns the number of iterations made and the links enqueued, and has no value when the
  loop never ends.
\<close>

partial_function (option) paginate ::
  "(nat \<Rightarrow> listing) \<Rightarrow> nat \<Rightarrow> string list \<Rightarrow> (nat \<times> string list) option" where
  "paginate view i links =
     (if nextButton (view i)
      then paginate view (Suc i) (links @ rowLinks (view i))
      else Some (Suc i, links @ rowLinks (view i)))"

text \<open>
  The state of the process that the handler reads and writes: the flag \<^verbatim>\<open>formFilled\<close>, and
  as a log every submission of the form and every link enqueued.
\<close>

record crawl =
  formFilled :: bool
  submitted :: "(string \<times> string) list"
  enqueued :: "string list"

text \<open>One call of the default handler: the request, its fresh page, and what the site does.\<close>

record request =
  url :: string
  form_page :: page
  site :: attempt
  views :: "nat \<Rightarrow> listing"

text \<open>
  Lines 176 to 180: the guarded call of \<^verbatim>\<open>performSearch\<close>, and the assignment that follows
  its normal return. The result is the state and the error thrown, if any.
\<close>

definition form_step :: "string \<Rightarrow> string \<Rightarrow> request \<Rightarrow> crawl \<Rightarrow> crawl \<times> error option" where
  "form_step startDate endDate r c =
     (if str_includes (url r) ''/search/advanced-search'' \<and> \<not> formFilled c then
        (case performSearch (site r) (form_page r) startDate endDate of
           (p, Inl e) \<Rightarrow> (c\<lparr>submitted := submitted c @ submissions p\<rparr>, Some e)
         | (p, Inr _) \<Rightarrow>
             (c\<lparr>submitted := submitted c @ submissions p, formFilled := True\<rparr>, None))
      else (c, None))"

definition defaultHandler ::
  "string \<Rightarrow> string \<Rightarrow> request \<Rightarrow> crawl \<Rightarrow> (crawl \<times> error option) option" where
  "defaultHandler startDate endDate r c =
     (case form_step startDate endDate r c of
        (c', Some e) \<Rightarrow> Some (c', Some e)
      | (c', None) \<Rightarrow>
          (case paginate (views r) 0 [] of
             None \<Rightarrow> None
           | Some (n, links) \<Rightarrow> Some (c'\<lparr>enqueued := enqueued c' @ links\<rparr>, None)))"

text \<open>
  The calls of the default handler within one process, in order (a retried request is a
  further call). There is no final state when one of the calls never returns.
\<close>

fun run :: "string \<Rightarrow> string \<Rightarrow> request list \<Rightarrow> crawl \<Rightarrow> crawl option" where
  "run startDate endDate [] c = Some c"
| "run startDate endDate (r # rs) c =
     (case defaultHandler startDate endDate r c of
        None \<Rightarrow> None
      | Some (c', _) \<Rightarrow> run startDate endDate rs c')"

section \<open>Notions used to state the properties\<close>

text \<open>A checkbox as the loop leaves it when it can click: toggled if it needed a click.\<close>

definition set_right :: "checkbox \<Rightarrow> checkbox" where
  "set_right cb = (if needs_click cb then cb\<lparr>isChecked := \<not> isChecked cb\<rparr> else cb)"

text \<open>The (label cell, value cell) pairs that the loop over a row visits, in order.\<close>

fun cell_pairs :: "cell list \<Rightarrow> (cell \<times> cell) list" where
  "cell_pairs (labelCell # valueCell # cells) = (labelCell, valueCell) # cell_pairs cells"
| "cell_pairs [labelCell] = []"
| "cell_pairs [] = []"

text \<open>
  The key that a pair writes, if it writes one: its label cell is styled as a label, and the
  first entry of the mapping whose label occurs in the normalized label text has a
  non-empty key.
\<close>

definition pair_key :: "(string \<times> string) list \<Rightarrow> cell \<times> cell \<Rightarrow> string option" where
  "pair_key fieldMappings lv =
     (if detail_title (fst lv) then
        (case fieldName fieldMappings (normalize_text (textContent (fst lv))) of
           None \<Rightarrow> None
         | Some k \<Rightarrow> if k = [] then None else Some k)
      else None)"

definition page_pairs :: "cell list list \<Rightarrow> (cell \<times> cell) list" where
  "page_pairs rows = concat (map cell_pairs rows)"

text \<open>The pairs of a page that write the key \<open>k\<close>, in document order.\<close>

definition writers ::
  "(string \<times> string) list \<Rightarrow> string \<Rightarrow> cell list list \<Rightarrow> (cell \<times> cell) list" where
  "writers fieldMappings k rows =
     filter (\<lambda>lv. pair_key fieldMappings lv = Some k) (page_pairs rows)"

definition write_pair ::
  "(string \<times> string) list \<Rightarrow> detail_record \<Rightarrow> cell \<times> cell \<Rightarrow> detail_record" where
  "write_pair fieldMappings result lv = extract_pair fieldMappings result (fst lv) (snd lv)"

section \<open>Example inputs\<close>

definition BASE_URL :: string where
  "BASE_URL = ''https://ewyszukiwarka.pue.uprp.gov.pl/search/advanced-search''"

text \<open>
  A form with one target checkbox still unchecked, one other checkbox checked, a checkbox
  without id, and an old date in the from field.
\<close>

definition example_form :: page where
  "example_form =
     \<lparr>checkboxes =
        [\<lparr>cb_id = Some ''pwp_criteria_0'', isChecked = False, has_box = True\<rparr>,
         \<lparr>cb_id = Some ''pwp_criteria_1'', isChecked = True, has_box = True\<rparr>,
         \<lparr>cb_id = None, isChecked = True, has_box = False\<rparr>],
      box_clicks = 0,
      inputs = (\<lambda>selector. if selector = DateFrom then ''2000-01-01'' else []),
      focused = None,
      all_selected = False,
      submissions = []\<rparr>"

text \<open>A site that answers every wait in time, and one whose navigation comes too late.\<close>

definition responsive_site :: attempt where
  "responsive_site =
     \<lparr>network_idle = True, form_appears = True, submit_clickable = True,
      navigation_completes = True, outcome_appears = True, info_message = None\<rparr>"

definition slow_site :: attempt where
  "slow_site = responsive_site\<lparr>navigation_completes := False\<rparr>"

text \<open>A result list of two pages, with three rows and one row.\<close>

definition two_views :: "nat \<Rightarrow> listing" where
  "two_views i =
     (if i = 0 then \<lparr>rowLinks = [''/d/1'', ''/d/2'', ''/d/3''], nextButton = True\<rparr>
      else \<lparr>rowLinks = [''/d/4''], nextButton = False\<rparr>)"

definition example_request :: "attempt \<Rightarrow> request" where
  "example_request a = \<lparr>url = BASE_URL, form_page = example_form, site = a, views = two_views\<rparr>"

text \<open>A date parser that knows two dates, as days since the first.\<close>

definition example_parse :: "string \<Rightarrow> int option" where
  "example_parse s =
     (if s = ''2024-01-01'' then Some 0 else if s = ''2024-01-31'' then Some 30 else None)"

text \<open>A parser that also accepts two dates written without leading zeros.\<close>

definition lenient_parse :: "string \<Rightarrow> int option" where
  "lenient_parse s =
     (if s = ''2024-1-5'' then Some 4 else if s = ''2024-1-6'' then Some 5
      else example_parse s)"

text \<open>
  A details table: a status, an application date whose value is blank, a row whose label
  is in no mapping entry, and a name whose value cell has a highlighted part.
\<close>

definition example_rows :: "cell list list" where
  "example_rows =
     [[\<lparr>detail_title = True, textContent = ''Status'', highlight = None\<rparr>,
       \<lparr>detail_title = False, textContent = ''  registered '', highlight = None\<rparr>,
       \<lparr>detail_title = True, textContent = ''Application  date:'', highlight = None\<rparr>,
       \<lparr>detail_title = False, textContent = ''   '', highlight = None\<rparr>],
      [\<lparr>detail_title = True, textContent = ''Owner'', highlight = None\<rparr>,
       \<lparr>detail_title = False, textContent = ''ACME'', highlight = None\<rparr>],
      [\<lparr>detail_title = True, textContent = ''Name/Title'', highlight = None\<rparr>,
       \<lparr>detail_title = False, textContent = ''word mark:  ACME  '', highlight = Some '' ACME ''\<rparr>]]"

section \<open>Properties of the string operations\<close>

lemma str_includes_sublist: "str_includes s t \<longleftrightarrow> sublist t s"
  by (induction s) (auto simp: sublist_Cons_right)

lemmas string_eval =
  trim_def toLowerCase_def toLowerCase_char_def is_white_space_def upper_chars_def
  lower_chars_def normalize_text_def collapse_spaces_def

section \<open>Outcome classification\<close>

lemma checkOutcome_first_match:
  "checkOutcome message =
     (if \<exists>t. message = Some t \<and> sublist ''no results found'' (trim (toLowerCase t))
      then Inl (NonRetryableError ''No results found for the given criteria'')
      else if \<exists>t. message = Some t \<and> sublist ''too many results found'' (trim (toLowerCase t))
      then Inl (NonRetryableError ''Too many results found. Please narrow your search criteria'')
      else Inr ())"
  by (cases message) (simp_all add: checkOutcome_def errorText_def str_includes_sublist)

lemma performSearch_reaches_outcome:
  assumes "network_idle a" and "form_appears a" and "snd (setCheckboxes p) = None"
    and "submit_clickable a" and "navigation_completes a" and "outcome_appears a"
  shows "snd (performSearch a p startDate endDate) = checkOutcome (info_message a)"
proof -
  obtain p1 where "setCheckboxes p = (p1, None)"
    using assms(3) by (cases "setCheckboxes p") auto
  with assms show ?thesis
    by (simp add: performSearch_def Let_def)
qed

lemma example_form_boxes: "snd (setCheckboxes example_form) = None"
  by (simp add: setCheckboxes_def example_form_def needs_click_def shouldBeChecked_def
      TARGET_CHECKBOXES_def)

text \<open>
  Claim C1. When \<^verbatim>\<open>performSearch\<close> has submitted the form and the page has settled (every
  wait answered in time), what it signals is decided by the informational message alone,
  read in lower case and trimmed: a text in which \<open>no results found\<close> occurs makes it throw
  the non-retryable error whose message names the empty result; otherwise a text in which
  \<open>too many results found\<close> occurs makes it throw the non-retryable error whose message
  names the overflow; with every other text, and on a page without the message element, it
  returns normally. The three cases are exhaustive and exclude one another, and a text with
  both phrases takes the first branch.
\<close>

theorem performSearch_outcome_first_match:
  assumes "network_idle a" and "form_appears a" and "snd (setCheckboxes p) = None"
    and "submit_clickable a" and "navigation_completes a" and "outcome_appears a"
  shows "snd (performSearch a p startDate endDate) =
     (if \<exists>t. info_message a = Some t \<and> sublist ''no results found'' (trim (toLowerCase t))
      then Inl (NonRetryableError ''No results found for the given criteria'')
      else if \<exists>t. info_message a = Some t
                \<and> sublist ''too many results found'' (trim (toLowerCase t))
      then Inl (NonRetryableError ''Too many results found. Please narrow your search criteria'')
      else Inr ())"
  unfolding performSearch_reaches_outcome [OF assms]
  by (cases "info_message a") (simp_all add: checkOutcome_def errorText_def str_includes_sublist)

theorem performSearch_outcome_first_match_witness:
  "snd (performSearch (responsive_site\<lparr>info_message :=
          Some '' Too many results found; No Results FOUND. ''\<rparr>)
        example_form ''2024-01-01'' ''2024-01-31'') =
     Inl (NonRetryableError ''No results found for the given criteria'')
   \<and> snd (performSearch (responsive_site\<lparr>info_message := Some ''Too MANY results found''\<rparr>)
        example_form ''2024-01-01'' ''2024-01-31'') =
     Inl (NonRetryableError ''Too many results found. Please narrow your search criteria'')
   \<and> snd (performSearch (responsive_site\<lparr>info_message := Some ''12 results''\<rparr>)
        example_form ''2024-01-01'' ''2024-01-31'') = Inr ()
   \<and> snd (performSearch responsive_site example_form ''2024-01-01'' ''2024-01-31'') = Inr ()"
proof -
  have both: "sublist ''no results found''
      (trim (toLowerCase '' Too many results found; No Results FOUND. ''))"
    unfolding str_includes_sublist [symmetric] by code_simp
  have many: "\<not> sublist ''no results found'' (trim (toLowerCase ''Too MANY results found''))"
    "sublist ''too many results found'' (trim (toLowerCase ''Too MANY results found''))"
    unfolding str_includes_sublist [symmetric] by code_simp+
  have neither: "\<not> sublist ''no results found'' (trim (toLowerCase ''12 results''))"
    "\<not> sublist ''too many results found'' (trim (toLowerCase ''12 results''))"
    unfolding str_includes_sublist [symmetric] by code_simp+
  have waits: "network_idle (responsive_site\<lparr>info_message := m\<rparr>)"
    "form_appears (responsive_site\<lparr>info_message := m\<rparr>)"
    "submit_clickable (responsive_site\<lparr>info_message := m\<rparr>)"
    "navigation_completes (responsive_site\<lparr>info_message := m\<rparr>)"
    "outcome_appears (responsive_site\<lparr>info_message := m\<rparr>)" for m
    by (simp_all add: responsive_site_def)
  have same: "responsive_site\<lparr>info_message := None\<rparr> = responsive_site"
    by (simp add: responsive_site_def)
  have none: "info_message responsive_site = None"
    by (simp add: responsive_site_def)
  note inst = performSearch_outcome_first_match [OF waits(1,2) example_form_boxes waits(3,4,5),
      of _ "''2024-01-01''" "''2024-01-31''"]
  show ?thesis
    using inst [of "Some '' Too many results found; No Results FOUND. ''"]
      inst [of "Some ''Too MANY results found''"] inst [of "Some ''12 results''"] inst [of None]
      both many neither
    by (simp add: same none)
qed

section \<open>Filling the date fields\<close>

lemma foldl_press_char:
  "focused q = Some f \<Longrightarrow> \<not> all_selected q \<Longrightarrow>
   foldl press_char q v = q\<lparr>inputs := (inputs q)(f := inputs q f @ v)\<rparr>"
proof (induction v arbitrary: q)
  case Nil
  then show ?case by simp
next
  case (Cons c v)
  let ?q = "press_char q c"
  from Cons.prems have q: "?q = q\<lparr>inputs := (inputs q)(f := inputs q f @ [c])\<rparr>"
    by (simp add: press_char_def)
  then have foc: "focused ?q = Some f" "\<not> all_selected ?q"
    using Cons.prems by simp_all
  have "foldl press_char q (c # v) = foldl press_char ?q v"
    by simp
  also have "\<dots> = ?q\<lparr>inputs := (inputs ?q)(f := inputs ?q f @ v)\<rparr>"
    using foc by (rule Cons.IH)
  also have "\<dots> = q\<lparr>inputs := (inputs q)(f := inputs q f @ c # v)\<rparr>"
    unfolding q by simp
  finally show ?case .
qed

lemma fillDateField_eq:
  "fillDateField p selector v =
     p\<lparr>focused := Some selector, all_selected := False, inputs := (inputs p)(selector := v)\<rparr>"
  by (simp add: fillDateField_def type_text_def press_backspace_def press_select_all_def
      click_input_def foldl_press_char [where f = selector])

lemma DateFrom_neq_DateTo: "DateFrom \<noteq> DateTo"
  by (simp add: DateFrom_def DateTo_def)

text \<open>
  Claim C2. Whatever the two dates and whatever the fields held before, once the form has
  appeared and the checkboxes are set, the from field holds the caller's end date and the
  to field the caller's start date; if the submit control can be clicked, the form is sent
  with exactly these two values.
\<close>

theorem performSearch_dates_inverted:
  assumes "network_idle a" and "form_appears a" and "snd (setCheckboxes p) = None"
  shows "inputs (fst (performSearch a p startDate endDate)) DateFrom = endDate
       \<and> inputs (fst (performSearch a p startDate endDate)) DateTo = startDate
       \<and> (submit_clickable a \<longrightarrow>
            submissions (fst (performSearch a p startDate endDate)) =
              submissions p @ [(endDate, startDate)])"
proof -
  obtain p1 where p1: "setCheckboxes p = (p1, None)"
    using assms(3) by (cases "setCheckboxes p") auto
  have sub: "submissions p1 = submissions p" and "inputs p1 = inputs p"
    using p1 by (auto simp: setCheckboxes_def split: prod.splits)
  show ?thesis
    using assms(1,2) p1 sub DateFrom_neq_DateTo
    by (simp add: performSearch_def fillDateField_eq click_submit_def Let_def)
qed

theorem performSearch_dates_inverted_witness:
  "network_idle responsive_site \<and> form_appears responsive_site
   \<and> snd (setCheckboxes example_form) = None
   \<and> inputs (fst (performSearch responsive_site example_form ''2024-01-01'' ''2024-01-31'')) DateFrom
       = ''2024-01-31''
   \<and> inputs (fst (performSearch responsive_site example_form ''2024-01-01'' ''2024-01-31'')) DateTo
       = ''2024-01-01''
   \<and> submissions (fst (performSearch responsive_site example_form ''2024-01-01'' ''2024-01-31''))
       = [(''2024-01-31'', ''2024-01-01'')]"
proof -
  have h1: "network_idle responsive_site" and h2: "form_appears responsive_site"
    and h4: "submit_clickable responsive_site"
    by (simp_all add: responsive_site_def)
  have h3: "snd (setCheckboxes example_form) = None"
    by (simp add: setCheckboxes_def example_form_def needs_click_def shouldBeChecked_def
        TARGET_CHECKBOXES_def)
  have h5: "submissions example_form = []"
    by (simp add: example_form_def)
  from performSearch_dates_inverted [OF h1 h2 h3, of "''2024-01-01''" "''2024-01-31''"] h1 h2 h3 h4 h5
  show ?thesis by simp
qed

section \<open>Pagination\<close>

lemma paginate_last:
  "\<not> nextButton (view i) \<Longrightarrow> paginate view i links = Some (Suc i, links @ rowLinks (view i))"
  by (subst paginate.simps) simp

lemma paginate_next:
  "nextButton (view i) \<Longrightarrow>
   paginate view i links = paginate view (Suc i) (links @ rowLinks (view i))"
  by (subst paginate.simps) simp

lemma paginate_run:
  "(\<forall>j. i \<le> j \<and> j < i + k \<longrightarrow> nextButton (view j)) \<Longrightarrow> \<not> nextButton (view (i + k)) \<Longrightarrow>
   paginate view i links =
     Some (Suc (i + k), links @ concat (map (\<lambda>j. rowLinks (view j)) [i..<Suc (i + k)]))"
proof (induction k arbitrary: i links)
  case 0
  then show ?case by (simp add: paginate_last)
next
  case (Suc k)
  have nb: "nextButton (view i)"
    using Suc.prems(1) by simp
  have "paginate view (Suc i) (links @ rowLinks (view i)) =
      Some (Suc (Suc i + k),
        (links @ rowLinks (view i)) @ concat (map (\<lambda>j. rowLinks (view j)) [Suc i..<Suc (Suc i + k)]))"
    using Suc.prems by (intro Suc.IH) auto
  moreover have "[i..<Suc (i + Suc k)] = i # [Suc i..<Suc (Suc i + k)]"
    by (simp add: upt_conv_Cons)
  ultimately show ?case
    using nb by (simp add: paginate_next [of view i] del: upt_Suc)
qed

text \<open>
  Claim C4. If the first \<open>N - 1\<close> views of a result list show an enabled next control and
  view \<open>N\<close> shows none, the loop ends after exactly \<open>N\<close> iterations, and the links it has
  enqueued are those of view 1, then those of view 2, and so on to view \<open>N\<close>: every page
  once, none twice.
\<close>

theorem paginate_visits_each_page_once:
  assumes "0 < N" and "\<forall>j<N - 1. nextButton (view j)" and "\<not> nextButton (view (N - 1))"
  shows "paginate view 0 [] = Some (N, concat (map (\<lambda>j. rowLinks (view j)) [0..<N]))"
  using paginate_run [of 0 "N - 1" view "[]"] assms by simp

theorem paginate_visits_each_page_once_witness:
  "0 < (2::nat) \<and> nextButton (two_views 0) \<and> \<not> nextButton (two_views (2 - 1))
   \<and> paginate two_views 0 [] = Some (2, [''/d/1'', ''/d/2'', ''/d/3'', ''/d/4''])"
proof -
  have h1: "0 < (2::nat)" by simp
  have h2: "\<forall>j<2 - 1. nextButton (two_views j)" by (simp add: two_views_def)
  have h3: "\<not> nextButton (two_views (2 - 1))" by (simp add: two_views_def)
  have "[0..<2] = [0, Suc 0]" by (simp add: upt_rec)
  then have links: "concat (map (\<lambda>j. rowLinks (two_views j)) [0..<2]) =
      [''/d/1'', ''/d/2'', ''/d/3'', ''/d/4'']"
    by (simp add: two_views_def)
  from paginate_visits_each_page_once [OF h1 h2 h3] h1 h2 h3
  show ?thesis unfolding links by simp
qed

section \<open>Setting the checkboxes\<close>

lemma needs_click_set_right: "\<not> needs_click (set_right cb)"
  by (auto simp: set_right_def needs_click_def split: option.splits)

lemma setCheckboxes_loop_all_boxes:
  "\<forall>cb\<in>set cbs. needs_click cb \<longrightarrow> has_box cb \<Longrightarrow>
   setCheckboxes_loop cbs = (map set_right cbs, length (filter needs_click cbs), None)"
  by (induction cbs) (auto simp: set_right_def)

lemma setCheckboxes_loop_settled:
  "\<forall>cb\<in>set cbs. \<not> needs_click cb \<Longrightarrow> setCheckboxes_loop cbs = (cbs, 0, None)"
  by (induction cbs) auto

lemma setCheckboxes_loop_touches:
  "setCheckboxes_loop cbs = (cbs', n, e) \<Longrightarrow>
   list_all2 (\<lambda>cb cb'. cb' = cb \<or> (needs_click cb \<and> has_box cb \<and> cb' = cb\<lparr>isChecked := \<not> isChecked cb\<rparr>)) cbs cbs'
   \<and> n \<le> length (filter needs_click cbs)"
proof (induction cbs arbitrary: cbs' n e)
  case Nil
  then show ?case by simp
next
  case (Cons cb cbs)
  then show ?case
    by (auto split: if_splits prod.splits simp: list_all2_refl le_SucI)
qed

text \<open>
  The claim as first worded speaks of every form state. A checked checkbox that is not a
  target and has no widget box around it stays checked: there is nothing to click.
\<close>

theorem setCheckboxes_without_box_counterexample:
  "''remember_me'' \<notin> set TARGET_CHECKBOXES
   \<and> map isChecked (checkboxes (fst (setCheckboxes (example_form\<lparr>checkboxes :=
        [\<lparr>cb_id = Some ''remember_me'', isChecked = True, has_box = False\<rparr>]\<rparr>)))) = [True]"
  by (simp add: setCheckboxes_def needs_click_def shouldBeChecked_def TARGET_CHECKBOXES_def)

text \<open>
  Claim C5, amended. On a form where every identified checkbox in the wrong state has a
  widget box to click, one application ends without error, keeps the checkboxes and their
  ids, and leaves every checkbox with a target id checked and every other identified
  checkbox unchecked; a second application changes nothing and clicks nothing. On every
  form, a checkbox that is already in the desired state (or has no id) is left as it is, and
  the clicks made are at most the checkboxes in the wrong state.
\<close>

theorem setCheckboxes_idempotent:
  "((\<forall>cb\<in>set (checkboxes p). needs_click cb \<longrightarrow> has_box cb) \<longrightarrow>
      snd (setCheckboxes p) = None
      \<and> map cb_id (checkboxes (fst (setCheckboxes p))) = map cb_id (checkboxes p)
      \<and> (\<forall>cb\<in>set (checkboxes (fst (setCheckboxes p))). \<forall>ident.
            cb_id cb = Some ident \<and> ident \<noteq> [] \<longrightarrow>
            isChecked cb = (ident \<in> set TARGET_CHECKBOXES))
      \<and> setCheckboxes (fst (setCheckboxes p)) = (fst (setCheckboxes p), None))
   \<and> list_all2 (\<lambda>cb cb'. \<not> needs_click cb \<longrightarrow> cb' = cb)
        (checkboxes p) (checkboxes (fst (setCheckboxes p)))
   \<and> box_clicks (fst (setCheckboxes p)) \<le>
        box_clicks p + length (filter needs_click (checkboxes p))"
proof (intro conjI impI)
  assume boxes: "\<forall>cb\<in>set (checkboxes p). needs_click cb \<longrightarrow> has_box cb"
  let ?p' = "p\<lparr>checkboxes := map set_right (checkboxes p),
               box_clicks := box_clicks p + length (filter needs_click (checkboxes p))\<rparr>"
  have first: "setCheckboxes p = (?p', None)"
    by (simp add: setCheckboxes_def setCheckboxes_loop_all_boxes [OF boxes])
  have settled: "\<forall>cb\<in>set (checkboxes ?p'). \<not> needs_click cb"
    by (simp add: needs_click_set_right)
  show "snd (setCheckboxes p) = None"
    by (simp add: first)
  show "map cb_id (checkboxes (fst (setCheckboxes p))) = map cb_id (checkboxes p)"
    by (simp add: first set_right_def)
  show "\<forall>cb\<in>set (checkboxes (fst (setCheckboxes p))). \<forall>ident.
      cb_id cb = Some ident \<and> ident \<noteq> [] \<longrightarrow> isChecked cb = (ident \<in> set TARGET_CHECKBOXES)"
    unfolding first fst_conv using settled by (auto simp: needs_click_def shouldBeChecked_def)
  have "setCheckboxes_loop (checkboxes ?p') = (checkboxes ?p', 0, None)"
    using settled by (rule setCheckboxes_loop_settled)
  then have "setCheckboxes ?p' = (?p', None)"
    by (simp add: setCheckboxes_def)
  then show "setCheckboxes (fst (setCheckboxes p)) = (fst (setCheckboxes p), None)"
    by (simp add: first)
next
  obtain cbs' n e where loop: "setCheckboxes_loop (checkboxes p) = (cbs', n, e)"
    by (cases "setCheckboxes_loop (checkboxes p)") auto
  note touched = setCheckboxes_loop_touches [OF loop]
  have "list_all2 (\<lambda>cb cb'. \<not> needs_click cb \<longrightarrow> cb' = cb) (checkboxes p) cbs'"
    using touched by (auto elim: list_all2_mono)
  then show "list_all2 (\<lambda>cb cb'. \<not> needs_click cb \<longrightarrow> cb' = cb)
      (checkboxes p) (checkboxes (fst (setCheckboxes p)))"
    by (simp add: setCheckboxes_def loop)
  show "box_clicks (fst (setCheckboxes p)) \<le>
      box_clicks p + length (filter needs_click (checkboxes p))"
    using touched by (simp add: setCheckboxes_def loop)
qed

theorem setCheckboxes_idempotent_witness:
  "map has_box (filter needs_click (checkboxes example_form)) = [True, True]
   \<and> map isChecked (checkboxes (fst (setCheckboxes example_form))) = [True, False, True]
   \<and> box_clicks (fst (setCheckboxes example_form)) = 2
   \<and> box_clicks (fst (setCheckboxes (fst (setCheckboxes example_form)))) = 2"
proof -
  have h: "\<forall>cb\<in>set (checkboxes example_form). needs_click cb \<longrightarrow> has_box cb"
    by (simp add: example_form_def needs_click_def)
  have e: "setCheckboxes example_form =
      (example_form\<lparr>checkboxes :=
        [\<lparr>cb_id = Some ''pwp_criteria_0'', isChecked = True, has_box = True\<rparr>,
         \<lparr>cb_id = Some ''pwp_criteria_1'', isChecked = False, has_box = True\<rparr>,
         \<lparr>cb_id = None, isChecked = True, has_box = False\<rparr>], box_clicks := 2\<rparr>, None)"
    by (simp add: setCheckboxes_def example_form_def needs_click_def shouldBeChecked_def
        TARGET_CHECKBOXES_def)
  have boxes: "map has_box (filter needs_click (checkboxes example_form)) = [True, True]"
    by (simp add: example_form_def needs_click_def shouldBeChecked_def TARGET_CHECKBOXES_def)
  from setCheckboxes_idempotent [of example_form] h boxes show ?thesis
    by (simp add: e)
qed

section \<open>Detail extraction\<close>

lemma write_pair_lookup:
  "map_of (write_pair fm result lv) k =
     (if pair_key fm lv = Some k then Some (cell_value (snd lv)) else map_of result k)"
  by (auto simp: write_pair_def extract_pair_def pair_key_def update_conv' split: option.splits)

lemma extract_row_pairs:
  "extract_row fm result cells = foldl (write_pair fm) result (cell_pairs cells)"
  by (induction fm result cells rule: extract_row.induct) (simp_all add: write_pair_def)

lemma extract_rows_pairs:
  "foldl (extract_row fm) result rows = foldl (write_pair fm) result (page_pairs rows)"
  by (induction rows arbitrary: result) (simp_all add: page_pairs_def extract_row_pairs)

lemma foldl_write_pair_lookup:
  "map_of (foldl (write_pair fm) result ps) k =
     (if filter (\<lambda>lv. pair_key fm lv = Some k) ps = [] then map_of result k
      else Some (cell_value (snd (last (filter (\<lambda>lv. pair_key fm lv = Some k) ps)))))"
  by (induction ps rule: rev_induct) (simp_all add: write_pair_lookup)

lemma extract_lookup:
  "map_of (extractDetailData_with fm rows) k =
     (if writers fm k rows = [] then None
      else Some (cell_value (snd (last (writers fm k rows)))))"
  by (simp add: extractDetailData_with_def extract_rows_pairs foldl_write_pair_lookup
      writers_def)

lemma fieldName_FIELD_MAPPINGS_nonempty: "fieldName FIELD_MAPPINGS t = Some k \<Longrightarrow> k \<noteq> []"
  by (auto simp: fieldName_def FIELD_MAPPINGS_def split: if_splits)

lemma writers_nonempty_iff:
  "writers fm k rows \<noteq> [] \<longleftrightarrow>
     (\<exists>row\<in>set rows. \<exists>lv\<in>set (cell_pairs row). pair_key fm lv = Some k)"
  by (auto simp: writers_def page_pairs_def filter_empty_conv)

lemma mset_page_pairs:
  "mset rows' = mset rows \<Longrightarrow> mset (page_pairs rows') = mset (page_pairs rows)"
proof -
  assume eq: "mset rows' = mset rows"
  have "mset (page_pairs rs) = sum_mset (image_mset (\<lambda>r. mset (cell_pairs r)) (mset rs))" for rs
    by (induction rs) (simp_all add: page_pairs_def)
  then show ?thesis using eq by simp
qed

lemma extract_permuted:
  assumes perm: "mset rows' = mset rows"
    and agree: "\<forall>lv\<in>set (page_pairs rows). \<forall>lv'\<in>set (page_pairs rows).
        pair_key fm lv \<noteq> None \<and> pair_key fm lv = pair_key fm lv' \<longrightarrow>
        cell_value (snd lv) = cell_value (snd lv')"
  shows "map_of (extractDetailData_with fm rows') = map_of (extractDetailData_with fm rows)"
proof (rule ext)
  fix k
  have m: "mset (writers fm k rows') = mset (writers fm k rows)"
    using mset_page_pairs [OF perm] by (simp add: writers_def)
  then have sets: "set (writers fm k rows') = set (writers fm k rows)"
    by (rule mset_eq_setD)
  show "map_of (extractDetailData_with fm rows') k = map_of (extractDetailData_with fm rows) k"
  proof (cases "writers fm k rows = []")
    case True
    with m have "writers fm k rows' = []" by simp
    with True show ?thesis by (simp add: extract_lookup)
  next
    case False
    with sets have ne: "writers fm k rows' \<noteq> []" by auto
    have "last (writers fm k rows') \<in> set (writers fm k rows)"
      using ne sets last_in_set by blast
    moreover have "last (writers fm k rows) \<in> set (writers fm k rows)"
      using False by simp
    ultimately have
      "cell_value (snd (last (writers fm k rows'))) = cell_value (snd (last (writers fm k rows)))"
      using agree by (auto simp: writers_def)
    with False ne show ?thesis by (simp add: extract_lookup)
  qed
qed

lemma pair_key_FIELD_MAPPINGS:
  "pair_key FIELD_MAPPINGS lv = Some k \<longleftrightarrow>
     detail_title (fst lv) \<and> fieldName FIELD_MAPPINGS (normalize_text (textContent (fst lv))) = Some k"
  by (auto simp: pair_key_def dest: fieldName_FIELD_MAPPINGS_nonempty split: option.splits)

lemma write_pair_none: "pair_key fm lv = None \<Longrightarrow> write_pair fm result lv = result"
  by (auto simp: write_pair_def extract_pair_def pair_key_def split: option.splits if_splits)

lemma extract_row_no_writer:
  "\<forall>lv\<in>set (cell_pairs row). pair_key fm lv = None \<Longrightarrow> extract_row fm result row = result"
proof -
  have "\<forall>lv\<in>set ps. pair_key fm lv = None \<Longrightarrow> foldl (write_pair fm) result ps = result" for ps
    by (induction ps) (simp_all add: write_pair_none)
  then show "\<forall>lv\<in>set (cell_pairs row). pair_key fm lv = None \<Longrightarrow> extract_row fm result row = result"
    by (simp add: extract_row_pairs)
qed

lemma fieldName_first_match:
  "fieldName fm t = Some k \<longleftrightarrow>
     (\<exists>i<length fm. snd (fm ! i) = k \<and> str_includes t (fst (fm ! i))
        \<and> (\<forall>j<i. \<not> str_includes t (fst (fm ! j))))"
  apply (auto simp: fieldName_def find_Some_iff)
   apply (metis snd_conv)
  apply (metis prod.collapse)
  done

lemma cell_value_null:
  "cell_value v = None \<longleftrightarrow>
     (\<forall>h. highlight v = Some h \<longrightarrow> trim h = []) \<and> normalize_text (textContent v) = []"
  by (auto simp: cell_value_def Let_def split: option.splits)

lemmas extract_eval =
  extractDetailData_def extractDetailData_with_def extract_pair_def fieldName_def
  FIELD_MAPPINGS_def cell_value_def

lemmas pairs_eval = writers_def page_pairs_def pair_key_def

text \<open>
  The claim as first worded makes a key present as soon as some label-styled cell contains
  its mapping label. A label that contains the labels of two entries writes only the key of
  the entry that comes first in the mapping, and a label-styled cell that is the last of an
  odd number of cells has no value cell and writes nothing.
\<close>

theorem detail_record_keys_counterexample:
  "map_of FIELD_MAPPINGS ''Application date'' = Some ''applicationDate''
   \<and> detail_title \<lparr>detail_title = True, textContent = ''Application date (Status)'', highlight = None\<rparr>
   \<and> str_includes (normalize_text ''Application date (Status)'') ''Application date''
   \<and> map_of (extractDetailData
        [[\<lparr>detail_title = True, textContent = ''Application date (Status)'', highlight = None\<rparr>,
          \<lparr>detail_title = False, textContent = ''2020-05-04'', highlight = None\<rparr>]])
       ''applicationDate'' = None
   \<and> map_of FIELD_MAPPINGS ''Status'' = Some ''status''
   \<and> str_includes (normalize_text ''Status'') ''Status''
   \<and> map_of (extractDetailData
        [[\<lparr>detail_title = True, textContent = ''Status'', highlight = None\<rparr>]])
       ''status'' = None"
  by (simp add: extract_eval string_eval)

text \<open>
  Claim C3, amended. The record of a detail page contains a key exactly when some row has a
  label and value pair (cells \<open>2i\<close> and \<open>2i + 1\<close> of the row) whose label cell is
  label-styled and for which that key belongs to the first mapping entry, in the order of
  the mapping, whose label occurs in the normalized label text. The value stored is that of
  the last such pair in document order; it is \<open>null\<close> exactly when the highlight (if any)
  is empty after trimming and the cell text is empty after normalization. A key that no
  pair writes is absent, and a row none of whose pairs writes a key leaves the record as it
  was.
\<close>

theorem detail_record_keys:
  "(map_of (extractDetailData rows) k \<noteq> None \<longleftrightarrow>
      (\<exists>row\<in>set rows. \<exists>lv\<in>set (cell_pairs row).
         detail_title (fst lv)
         \<and> fieldName FIELD_MAPPINGS (normalize_text (textContent (fst lv))) = Some k))
   \<and> (writers FIELD_MAPPINGS k rows \<noteq> [] \<longrightarrow>
        map_of (extractDetailData rows) k =
          Some (cell_value (snd (last (writers FIELD_MAPPINGS k rows)))))
   \<and> (cell_value v = None \<longleftrightarrow>
        (\<forall>h. highlight v = Some h \<longrightarrow> trim h = []) \<and> normalize_text (textContent v) = [])
   \<and> ((\<forall>lv\<in>set (cell_pairs row). pair_key FIELD_MAPPINGS lv = None) \<longrightarrow>
        extract_row FIELD_MAPPINGS result row = result)
   \<and> (fieldName FIELD_MAPPINGS t = Some k \<longleftrightarrow>
        (\<exists>i<length FIELD_MAPPINGS. snd (FIELD_MAPPINGS ! i) = k
           \<and> str_includes t (fst (FIELD_MAPPINGS ! i))
           \<and> (\<forall>j<i. \<not> str_includes t (fst (FIELD_MAPPINGS ! j)))))"
proof (intro conjI)
  show "map_of (extractDetailData rows) k \<noteq> None \<longleftrightarrow>
      (\<exists>row\<in>set rows. \<exists>lv\<in>set (cell_pairs row).
         detail_title (fst lv)
         \<and> fieldName FIELD_MAPPINGS (normalize_text (textContent (fst lv))) = Some k)"
  proof -
    have "map_of (extractDetailData rows) k \<noteq> None \<longleftrightarrow> writers FIELD_MAPPINGS k rows \<noteq> []"
      by (simp add: extractDetailData_def extract_lookup)
    then show ?thesis
      unfolding writers_nonempty_iff pair_key_FIELD_MAPPINGS .
  qed
  show "writers FIELD_MAPPINGS k rows \<noteq> [] \<longrightarrow>
        map_of (extractDetailData rows) k =
          Some (cell_value (snd (last (writers FIELD_MAPPINGS k rows))))"
    by (simp add: extractDetailData_def extract_lookup)
  show "cell_value v = None \<longleftrightarrow>
        (\<forall>h. highlight v = Some h \<longrightarrow> trim h = []) \<and> normalize_text (textContent v) = []"
    by (rule cell_value_null)
  show "(\<forall>lv\<in>set (cell_pairs row). pair_key FIELD_MAPPINGS lv = None) \<longrightarrow>
        extract_row FIELD_MAPPINGS result row = result"
    by (simp add: extract_row_no_writer)
  show "fieldName FIELD_MAPPINGS t = Some k \<longleftrightarrow>
        (\<exists>i<length FIELD_MAPPINGS. snd (FIELD_MAPPINGS ! i) = k
           \<and> str_includes t (fst (FIELD_MAPPINGS ! i))
           \<and> (\<forall>j<i. \<not> str_includes t (fst (FIELD_MAPPINGS ! j))))"
    by (rule fieldName_first_match)
qed

theorem detail_record_keys_witness:
  "extractDetailData example_rows =
     [(''status'', Some ''registered''), (''applicationDate'', None), (''nameTitle'', Some ''ACME'')]
   \<and> map_of (extractDetailData example_rows) ''status'' = Some (Some ''registered'')
   \<and> map_of (extractDetailData example_rows) ''applicationDate'' = Some None
   \<and> map_of (extractDetailData example_rows) ''trademarkType'' = None
   \<and> writers FIELD_MAPPINGS ''applicationDate'' example_rows =
       [(\<lparr>detail_title = True, textContent = ''Application  date:'', highlight = None\<rparr>,
         \<lparr>detail_title = False, textContent = ''   '', highlight = None\<rparr>)]"
proof -
  have w: "writers FIELD_MAPPINGS ''applicationDate'' example_rows =
       [(\<lparr>detail_title = True, textContent = ''Application  date:'', highlight = None\<rparr>,
         \<lparr>detail_title = False, textContent = ''   '', highlight = None\<rparr>)]"
    by (simp add: example_rows_def pairs_eval extract_eval string_eval)
  have v: "cell_value \<lparr>detail_title = False, textContent = ''   '', highlight = None\<rparr> = None"
    by (simp add: extract_eval string_eval)
  have null: "map_of (extractDetailData example_rows) ''applicationDate'' = Some None"
    using detail_record_keys [of example_rows "''applicationDate''"] w v by simp
  have all: "extractDetailData example_rows =
     [(''status'', Some ''registered''), (''applicationDate'', None), (''nameTitle'', Some ''ACME'')]"
    by (simp add: example_rows_def extract_eval string_eval)
  show ?thesis
    using null w by (simp add: all)
qed

text \<open>
  Claim C6. For a key of the record, let \<open>v\<close> be the value cell of the last pair that
  writes it. If \<open>v\<close> has a highlighted part whose trimmed text is not empty, the value
  stored is exactly that trimmed text, and so differs from the raw cell text whenever the
  two differ. The normalized text of the whole cell is stored only when there is no
  highlighted part or its trimmed text is empty.
\<close>

theorem highlight_preferred:
  assumes "writers FIELD_MAPPINGS k rows \<noteq> []"
    and "v = snd (last (writers FIELD_MAPPINGS k rows))"
  shows "(highlight v = Some h \<and> trim h \<noteq> [] \<longrightarrow>
            map_of (extractDetailData rows) k = Some (Some (trim h))
            \<and> (trim h \<noteq> textContent v \<longrightarrow>
                 map_of (extractDetailData rows) k \<noteq> Some (Some (textContent v))))
       \<and> (highlight v = None \<or> (highlight v = Some h \<and> trim h = []) \<longrightarrow>
            map_of (extractDetailData rows) k =
              Some (if normalize_text (textContent v) = [] then None
                    else Some (normalize_text (textContent v))))"
  using assms by (auto simp: extractDetailData_def extract_lookup cell_value_def)

theorem highlight_preferred_witness:
  "writers FIELD_MAPPINGS ''nameTitle'' example_rows =
     [(\<lparr>detail_title = True, textContent = ''Name/Title'', highlight = None\<rparr>,
       \<lparr>detail_title = False, textContent = ''word mark:  ACME  '', highlight = Some '' ACME ''\<rparr>)]
   \<and> trim '' ACME '' = ''ACME''
   \<and> normalize_text ''word mark:  ACME  '' = ''word mark: ACME''
   \<and> map_of (extractDetailData example_rows) ''nameTitle'' = Some (Some ''ACME'')"
proof -
  let ?v = "\<lparr>detail_title = False, textContent = ''word mark:  ACME  '', highlight = Some '' ACME ''\<rparr>"
  have w: "writers FIELD_MAPPINGS ''nameTitle'' example_rows =
     [(\<lparr>detail_title = True, textContent = ''Name/Title'', highlight = None\<rparr>, ?v)]"
    by (simp add: example_rows_def pairs_eval extract_eval string_eval)
  have t: "trim '' ACME '' = ''ACME''" and n: "normalize_text ''word mark:  ACME  '' = ''word mark: ACME''"
    by (simp_all add: string_eval)
  have h1: "writers FIELD_MAPPINGS ''nameTitle'' example_rows \<noteq> []"
    and h2: "?v = snd (last (writers FIELD_MAPPINGS ''nameTitle'' example_rows))"
    by (simp_all add: w)
  from highlight_preferred [OF h1 h2, of "'' ACME ''"] w t n show ?thesis
    by simp
qed

text \<open>
  The claim as first worded excepts only labels that match more than one mapping entry.
  Two rows labelled \<open>Status\<close>, a label that matches one entry only, give a record that
  depends on their order: the later row wins.
\<close>

theorem extraction_row_order_counterexample:
  "map (str_includes ''Status'') (map fst FIELD_MAPPINGS) =
     [False, True, False, False, False, False, False, False]
   \<and> map_of (extractDetailData
        [[\<lparr>detail_title = True, textContent = ''Status'', highlight = None\<rparr>,
          \<lparr>detail_title = False, textContent = ''expired'', highlight = None\<rparr>],
         [\<lparr>detail_title = True, textContent = ''Status'', highlight = None\<rparr>,
          \<lparr>detail_title = False, textContent = ''registered'', highlight = None\<rparr>]])
       ''status'' = Some (Some ''registered'')
   \<and> map_of (extractDetailData
        [[\<lparr>detail_title = True, textContent = ''Status'', highlight = None\<rparr>,
          \<lparr>detail_title = False, textContent = ''registered'', highlight = None\<rparr>],
         [\<lparr>detail_title = True, textContent = ''Status'', highlight = None\<rparr>,
          \<lparr>detail_title = False, textContent = ''expired'', highlight = None\<rparr>]])
       ''status'' = Some (Some ''expired'')"
  by (simp add: extract_eval string_eval)

text \<open>
  Claim C7, amended. The record, as a mapping from keys to values, is the same for every
  permutation of the rows, provided that pairs which write the same key carry the same
  extracted value. (When two pairs write different values under one key, the pair later in
  document order wins.)
\<close>

theorem extraction_row_order:
  assumes "mset rows' = mset rows"
    and "\<forall>lv\<in>set (page_pairs rows). \<forall>lv'\<in>set (page_pairs rows).
        pair_key FIELD_MAPPINGS lv \<noteq> None \<and> pair_key FIELD_MAPPINGS lv = pair_key FIELD_MAPPINGS lv' \<longrightarrow>
        cell_value (snd lv) = cell_value (snd lv')"
  shows "map_of (extractDetailData rows') = map_of (extractDetailData rows)"
  unfolding extractDetailData_def using assms by (rule extract_permuted)

theorem extraction_row_order_witness:
  "mset (rev example_rows) = mset example_rows
   \<and> map_of (extractDetailData (rev example_rows)) = map_of (extractDetailData example_rows)
   \<and> extractDetailData (rev example_rows) =
       [(''nameTitle'', Some ''ACME''), (''status'', Some ''registered''), (''applicationDate'', None)]"
proof -
  have h1: "mset (rev example_rows) = mset example_rows" by simp
  have h2: "\<forall>lv\<in>set (page_pairs example_rows). \<forall>lv'\<in>set (page_pairs example_rows).
        pair_key FIELD_MAPPINGS lv \<noteq> None \<and> pair_key FIELD_MAPPINGS lv = pair_key FIELD_MAPPINGS lv' \<longrightarrow>
        cell_value (snd lv) = cell_value (snd lv')"
    by (simp add: example_rows_def pairs_eval extract_eval string_eval)
  have r: "extractDetailData (rev example_rows) =
       [(''nameTitle'', Some ''ACME''), (''status'', Some ''registered''), (''applicationDate'', None)]"
    by (simp add: example_rows_def extract_eval string_eval)
  from extraction_row_order [OF h1 h2] h1 r show ?thesis by simp
qed

section \<open>The form guard\<close>

lemma form_step_skips: "formFilled c \<Longrightarrow> form_step startDate endDate r c = (c, None)"
  by (simp add: form_step_def)

lemma form_step_sets_guard:
  "str_includes (url r) ''/search/advanced-search'' \<Longrightarrow>
   form_step startDate endDate r c = (c1, None) \<Longrightarrow> formFilled c1"
  by (auto simp: form_step_def split: if_splits prod.splits sum.splits)

lemma defaultHandler_keeps_guard:
  "formFilled c \<Longrightarrow> defaultHandler startDate endDate r c = Some (c', x) \<Longrightarrow>
   formFilled c' \<and> submitted c' = submitted c"
  by (auto simp: defaultHandler_def form_step_skips split: option.splits)

lemma run_keeps_guard:
  "formFilled c \<Longrightarrow> run startDate endDate rs c = Some c' \<Longrightarrow>
   formFilled c' \<and> submitted c' = submitted c"
proof (induction rs arbitrary: c)
  case Nil
  then show ?case by simp
next
  case (Cons r rs)
  from Cons.prems(2) obtain c1 x where
    h: "defaultHandler startDate endDate r c = Some (c1, x)" and
    rest: "run startDate endDate rs c1 = Some c'"
    by (auto split: option.splits)
  from defaultHandler_keeps_guard [OF Cons.prems(1) h]
  have "formFilled c1" and "submitted c1 = submitted c" by simp_all
  with Cons.IH [OF _ rest] show ?case by simp
qed

lemma paginate_two_views:
  "paginate two_views 0 [] = Some (2, [''/d/1'', ''/d/2'', ''/d/3'', ''/d/4''])"
proof -
  have "nextButton (two_views 0)" and "\<not> nextButton (two_views (Suc 0))"
    by (simp_all add: two_views_def)
  then show ?thesis
    by (simp add: paginate_next paginate_last numeral_2_eq_2) (simp add: two_views_def)
qed

lemma setCheckboxes_example_form:
  "setCheckboxes example_form =
      (example_form\<lparr>checkboxes :=
        [\<lparr>cb_id = Some ''pwp_criteria_0'', isChecked = True, has_box = True\<rparr>,
         \<lparr>cb_id = Some ''pwp_criteria_1'', isChecked = False, has_box = True\<rparr>,
         \<lparr>cb_id = None, isChecked = True, has_box = False\<rparr>], box_clicks := 2\<rparr>, None)"
  by (simp add: setCheckboxes_def example_form_def needs_click_def shouldBeChecked_def
        TARGET_CHECKBOXES_def)

lemma performSearch_slow:
  "submissions (fst (performSearch slow_site example_form ''2024-01-01'' ''2024-01-31'')) =
     [(''2024-01-31'', ''2024-01-01'')]
   \<and> snd (performSearch slow_site example_form ''2024-01-01'' ''2024-01-31'') = Inl TimeoutError"
  by (simp add: performSearch_def setCheckboxes_example_form fillDateField_eq click_submit_def
      slow_site_def responsive_site_def DateFrom_neq_DateTo Let_def)
    (simp add: example_form_def)

lemma performSearch_responsive:
  "submissions (fst (performSearch responsive_site example_form ''2024-01-01'' ''2024-01-31'')) =
     [(''2024-01-31'', ''2024-01-01'')]
   \<and> snd (performSearch responsive_site example_form ''2024-01-01'' ''2024-01-31'') = Inr ()"
  by (simp add: performSearch_def setCheckboxes_example_form fillDateField_eq click_submit_def
      responsive_site_def DateFrom_neq_DateTo Let_def checkOutcome_def errorText_def)
    (simp add: example_form_def)

text \<open>
  The claim as first worded says that the form is submitted at most once in a process. A
  call in which the click on the submit control is made and the navigation then times out
  throws before the flag is set; the retry of the request finds the flag unset and submits
  the form a second time.
\<close>

theorem form_submitted_twice_counterexample:
  "run ''2024-01-01'' ''2024-01-31'' [example_request slow_site, example_request responsive_site]
     \<lparr>formFilled = False, submitted = [], enqueued = []\<rparr> =
   Some \<lparr>formFilled = True,
         submitted = [(''2024-01-31'', ''2024-01-01''), (''2024-01-31'', ''2024-01-01'')],
         enqueued = [''/d/1'', ''/d/2'', ''/d/3'', ''/d/4'']\<rparr>"
proof -
  have url: "str_includes BASE_URL ''/search/advanced-search''"
    by (simp add: BASE_URL_def)
  obtain p1 where p1: "performSearch slow_site example_form ''2024-01-01'' ''2024-01-31'' = (p1, Inl TimeoutError)"
    and s1: "submissions p1 = [(''2024-01-31'', ''2024-01-01'')]"
    using performSearch_slow by (cases "performSearch slow_site example_form ''2024-01-01'' ''2024-01-31''") auto
  obtain p2 where p2: "performSearch responsive_site example_form ''2024-01-01'' ''2024-01-31'' = (p2, Inr ())"
    and s2: "submissions p2 = [(''2024-01-31'', ''2024-01-01'')]"
    using performSearch_responsive by (cases "performSearch responsive_site example_form ''2024-01-01'' ''2024-01-31''") auto
  show ?thesis
    by (simp add: defaultHandler_def form_step_def example_request_def url p1 s1 p2 s2
        paginate_two_views)
qed

lemma form_step_throws:
  "form_step startDate endDate r c = (c1, Some err) \<Longrightarrow> \<not> formFilled c \<and> \<not> formFilled c1"
  by (auto simp: form_step_def split: if_splits prod.splits sum.splits)

lemma form_step_submits:
  assumes "str_includes (url r) ''/search/advanced-search''" and "\<not> formFilled c"
    and "network_idle (site r)" and "form_appears (site r)"
    and "snd (setCheckboxes (form_page r)) = None" and "submit_clickable (site r)"
  shows "submitted (fst (form_step startDate endDate r c)) =
     submitted c @ submissions (form_page r) @ [(endDate, startDate)]"
proof -
  obtain p1 where p1: "setCheckboxes (form_page r) = (p1, None)"
    using assms(5) by (cases "setCheckboxes (form_page r)") auto
  have sub: "submissions p1 = submissions (form_page r)"
    using p1 by (auto simp: setCheckboxes_def split: prod.splits)
  have "submissions (fst (performSearch (site r) (form_page r) startDate endDate)) =
      submissions (form_page r) @ [(endDate, startDate)]"
    using assms(3,4,6) p1 sub DateFrom_neq_DateTo
    by (simp add: performSearch_def fillDateField_eq click_submit_def Let_def)
  then show ?thesis
    using assms(1,2)
    by (cases "performSearch (site r) (form_page r) startDate endDate")
      (auto simp: form_step_def split: sum.splits)
qed

text \<open>
  Claim C8, amended. When the guarded step of a request for the search page returns
  normally, the flag is set. Once the flag is set, the guarded step does nothing: it
  returns the state as it is, without calling \<^verbatim>\<open>performSearch\<close>, and over any further calls
  of the handler in the same process the flag stays set and no further submission is made.
  When the guarded step throws, the flag was unset and is left unset. Every call for the
  search page that finds the flag unset, a retry after such a throw among them, fills the
  form again and, if it reaches the submit control, submits it again with the end date and
  the start date.
\<close>

theorem form_guard_set_once:
  "(str_includes (url r) ''/search/advanced-search'' \<and> form_step startDate endDate r c = (c_ok, None)
      \<longrightarrow> formFilled c_ok)
   \<and> (formFilled c \<longrightarrow> form_step startDate endDate r c = (c, None))
   \<and> (formFilled c \<and> run startDate endDate rs c = Some c' \<longrightarrow>
        formFilled c' \<and> submitted c' = submitted c)
   \<and> (form_step startDate endDate r c = (c_thrown, Some err) \<longrightarrow>
        \<not> formFilled c \<and> \<not> formFilled c_thrown)
   \<and> (str_includes (url r') ''/search/advanced-search'' \<and> \<not> formFilled c_thrown
        \<and> network_idle (site r') \<and> form_appears (site r')
        \<and> snd (setCheckboxes (form_page r')) = None \<and> submit_clickable (site r')
      \<longrightarrow> submitted (fst (form_step startDate endDate r' c_thrown)) =
            submitted c_thrown @ submissions (form_page r') @ [(endDate, startDate)])"
proof (intro conjI impI; (elim conjE)?)
  show "formFilled c_ok"
    if "str_includes (url r) ''/search/advanced-search''"
      and "form_step startDate endDate r c = (c_ok, None)"
    using that by (rule form_step_sets_guard)
  show "form_step startDate endDate r c = (c, None)" if "formFilled c"
    using that by (rule form_step_skips)
  show "formFilled c'" and "submitted c' = submitted c"
    if "formFilled c" and "run startDate endDate rs c = Some c'"
    using run_keeps_guard [OF that] by simp_all
  show "\<not> formFilled c" and "\<not> formFilled c_thrown"
    if "form_step startDate endDate r c = (c_thrown, Some err)"
    using form_step_throws [OF that] by simp_all
  show "submitted (fst (form_step startDate endDate r' c_thrown)) =
      submitted c_thrown @ submissions (form_page r') @ [(endDate, startDate)]"
    if "str_includes (url r') ''/search/advanced-search''" and "\<not> formFilled c_thrown"
      and "network_idle (site r')" and "form_appears (site r')"
      and "snd (setCheckboxes (form_page r')) = None" and "submit_clickable (site r')"
    using that by (rule form_step_submits)
qed

theorem form_guard_set_once_witness:
  "str_includes (url (example_request responsive_site)) ''/search/advanced-search''
   \<and> form_step ''2024-01-01'' ''2024-01-31'' (example_request responsive_site)
        \<lparr>formFilled = False, submitted = [], enqueued = []\<rparr> =
       (\<lparr>formFilled = True, submitted = [(''2024-01-31'', ''2024-01-01'')], enqueued = []\<rparr>, None)
   \<and> run ''2024-01-01'' ''2024-01-31'' [example_request responsive_site, example_request slow_site]
        \<lparr>formFilled = True, submitted = [(''2024-01-31'', ''2024-01-01'')], enqueued = []\<rparr> =
       Some \<lparr>formFilled = True, submitted = [(''2024-01-31'', ''2024-01-01'')],
             enqueued = [''/d/1'', ''/d/2'', ''/d/3'', ''/d/4'', ''/d/1'', ''/d/2'', ''/d/3'', ''/d/4'']\<rparr>
   \<and> form_step ''2024-01-01'' ''2024-01-31'' (example_request slow_site)
        \<lparr>formFilled = False, submitted = [], enqueued = []\<rparr> =
       (\<lparr>formFilled = False, submitted = [(''2024-01-31'', ''2024-01-01'')], enqueued = []\<rparr>,
        Some TimeoutError)
   \<and> submitted (fst (form_step ''2024-01-01'' ''2024-01-31'' (example_request responsive_site)
        \<lparr>formFilled = False, submitted = [(''2024-01-31'', ''2024-01-01'')], enqueued = []\<rparr>)) =
       [(''2024-01-31'', ''2024-01-01''), (''2024-01-31'', ''2024-01-01'')]"
proof -
  let ?c0 = "\<lparr>formFilled = False, submitted = [], enqueued = []\<rparr>"
  let ?c1 = "\<lparr>formFilled = True, submitted = [(''2024-01-31'', ''2024-01-01'')], enqueued = []\<rparr>"
  let ?c2 = "\<lparr>formFilled = False, submitted = [(''2024-01-31'', ''2024-01-01'')], enqueued = []\<rparr>"
  have url: "str_includes BASE_URL ''/search/advanced-search''"
    by (simp add: BASE_URL_def)
  obtain p1 where p1: "performSearch slow_site example_form ''2024-01-01'' ''2024-01-31'' = (p1, Inl TimeoutError)"
    and s1: "submissions p1 = [(''2024-01-31'', ''2024-01-01'')]"
    using performSearch_slow by (cases "performSearch slow_site example_form ''2024-01-01'' ''2024-01-31''") auto
  obtain p2 where p2: "performSearch responsive_site example_form ''2024-01-01'' ''2024-01-31'' = (p2, Inr ())"
    and s2: "submissions p2 = [(''2024-01-31'', ''2024-01-01'')]"
    using performSearch_responsive by (cases "performSearch responsive_site example_form ''2024-01-01'' ''2024-01-31''") auto
  have step: "form_step ''2024-01-01'' ''2024-01-31'' (example_request responsive_site) ?c0 = (?c1, None)"
    by (simp add: form_step_def example_request_def url p2 s2)
  have later: "run ''2024-01-01'' ''2024-01-31'' [example_request responsive_site, example_request slow_site] ?c1 =
       Some \<lparr>formFilled = True, submitted = [(''2024-01-31'', ''2024-01-01'')],
             enqueued = [''/d/1'', ''/d/2'', ''/d/3'', ''/d/4'', ''/d/1'', ''/d/2'', ''/d/3'', ''/d/4'']\<rparr>"
    by (simp add: defaultHandler_def form_step_def example_request_def paginate_two_views)
  have throw: "form_step ''2024-01-01'' ''2024-01-31'' (example_request slow_site) ?c0 =
      (?c2, Some TimeoutError)"
    by (simp add: form_step_def example_request_def url p1 s1)
  have reach: "network_idle (site (example_request responsive_site))"
    "form_appears (site (example_request responsive_site))"
    "snd (setCheckboxes (form_page (example_request responsive_site))) = None"
    "submit_clickable (site (example_request responsive_site))"
    "submissions (form_page (example_request responsive_site)) = []"
    by (simp_all add: example_request_def responsive_site_def setCheckboxes_example_form)
      (simp add: example_form_def)
  note thrown = form_guard_set_once [where r = "example_request slow_site" and c = ?c0
      and c_thrown = ?c2 and err = TimeoutError
      and startDate = "''2024-01-01''" and endDate = "''2024-01-31''",
      THEN conjunct2, THEN conjunct2, THEN conjunct2, THEN conjunct1, THEN mp, OF throw]
  have unset: "\<not> formFilled ?c2"
    using thrown by (rule conjunct2)
  have u: "str_includes (url (example_request responsive_site)) ''/search/advanced-search''"
    by (simp add: example_request_def url)
  note retry = form_guard_set_once [where r' = "example_request responsive_site"
      and c_thrown = ?c2 and startDate = "''2024-01-01''" and endDate = "''2024-01-31''",
      THEN conjunct2, THEN conjunct2, THEN conjunct2, THEN conjunct2, THEN mp]
  have "submitted (fst (form_step ''2024-01-01'' ''2024-01-31'' (example_request responsive_site) ?c2)) =
      submitted ?c2 @ submissions (form_page (example_request responsive_site))
        @ [(''2024-01-31'', ''2024-01-01'')]"
    by (rule retry) (intro conjI u unset reach(1) reach(2) reach(3) reach(4))
  then have again: "submitted (fst (form_step ''2024-01-01'' ''2024-01-31''
      (example_request responsive_site) ?c2)) =
      [(''2024-01-31'', ''2024-01-01''), (''2024-01-31'', ''2024-01-01'')]"
    by (simp add: reach(5))
  from u step later throw again show ?thesis
    by (intro conjI)
qed

section \<open>Argument validation\<close>

lemma validateArgs_cases:
  "(args = s # e # rest \<and> s \<noteq> [] \<and> e \<noteq> [] \<and> parse s = Some a \<and> parse e = Some b \<and> a \<le> b
      \<longrightarrow> validateArgs parse args = Inr (s, e))
   \<and> (args = s # e # rest \<and> s \<noteq> [] \<and> e \<noteq> [] \<and> parse s = Some a \<and> parse e = Some b \<and> b < a
      \<longrightarrow> validateArgs parse args =
            Inl (Exit 1 ''Start date must be before or equal to end date.''))
   \<and> (args = s # e # rest \<and> s \<noteq> [] \<and> e \<noteq> [] \<and> (parse s = None \<or> parse e = None)
      \<longrightarrow> validateArgs parse args = Inl (Exit 1 ''Invalid date format. Use YYYY-MM-DD.''))
   \<and> (length args < 2 \<or> (args = s # e # rest \<and> (s = [] \<or> e = []))
      \<longrightarrow> validateArgs parse args = Inl (Exit 1 usage_message))"
  by (auto simp: validateArgs_def falsy_def isValidDate_def Let_def
      split: list.splits option.splits)

text \<open>
  Claim C9. \<^verbatim>\<open>validateArgs\<close> has no check of the format of its own: whether an argument is
  a date is what the library parser says. So for a parser that accepts \<open>2024-1-5\<close> and
  \<open>2024-1-6\<close>, in this order of time, the call with these two arguments returns them as
  they are and does not exit, though neither has the form YYYY-MM-DD that the usage and
  error messages of the function ask for.
\<close>

theorem validateArgs_returns_unpadded_dates:
  "parse ''2024-1-5'' = Some a \<and> parse ''2024-1-6'' = Some b \<and> a \<le> b \<longrightarrow>
     validateArgs parse [''2024-1-5'', ''2024-1-6''] = Inr (''2024-1-5'', ''2024-1-6'')"
  using validateArgs_cases [of "[''2024-1-5'', ''2024-1-6'']" "''2024-1-5''" "''2024-1-6''" "[]"
      parse a b]
  by simp

theorem validateArgs_returns_unpadded_dates_witness:
  "lenient_parse ''2024-1-5'' = Some 4 \<and> lenient_parse ''2024-1-6'' = Some 5
   \<and> validateArgs lenient_parse [''2024-1-5'', ''2024-1-6''] = Inr (''2024-1-5'', ''2024-1-6'')"
  using validateArgs_returns_unpadded_dates [of lenient_parse 4 5]
  by (simp add: lenient_parse_def)

end
